theory Spec2Isabelle
  imports Main "HOL-Library.AList"
begin

section \<open>The metric model\<close>

text \<open>
  Modelled from the spec: the declarations of Metric, LabelValue, Datum and Kind are not
  among the sources, which hold the store (\<^verbatim>\<open>internal/metrics/store.go\<close>) only. Section 3
  of the specification: a Metric is identified by its name and the program it comes
  from, and has a Kind (Counter, Gauge, Timer or Histogram), an ordered list of label
  keys and a collection of label values; a label value is one label tuple with its
  Datum and an expiry duration; a Datum is a value cell with the timestamp of its last
  write. The fields are the ones the store reads. Durations and timestamps are counts of
  nanoseconds. The value cell is kept as an integer: no operation of the store reads
  it.
\<close>

datatype Kind = Counter | Gauge | Timer | Histogram

record Datum =
  Val :: int
  Time :: int

record LabelValue =
  Labels :: "string list"
  Value :: Datum
  Expiry :: int

text \<open>
  \<open>Keys\<close> is a Go slice that \<^verbatim>\<open>reflect.DeepEqual\<close> inspects, and DeepEqual tells a nil
  slice from an empty one: \<open>None\<close> is the nil slice.
\<close>

record Metric =
  Name :: string
  Program :: string
  Kind :: Kind
  Keys :: "string list option"
  LabelValues :: "LabelValue list"

text \<open>
  Metrics are shared by pointer: the store maps a key to a pointer, and \<open>Add\<close> and
  \<open>Gc\<close> change the objects behind the pointers. The heap gives the object of every
  pointer; a pointer is never nil. Locks are left out: every operation runs alone.
\<close>

type_synonym ptr = nat
type_synonym heap = "ptr \<Rightarrow> Metric"

datatype error =
  DifferentKind string Kind ptr
  | NotFound "string list"
  | Failure string

definition len :: "'a list option \<Rightarrow> nat" where
  "len xs = (case xs of None \<Rightarrow> 0 | Some ys \<Rightarrow> length ys)"

definition DeepEqual :: "string list option \<Rightarrow> string list option \<Rightarrow> bool" where
  "DeepEqual a b =
     (case a of
        None \<Rightarrow> (case b of None \<Rightarrow> True | Some ys \<Rightarrow> False)
      | Some xs \<Rightarrow> (case b of None \<Rightarrow> False | Some ys \<Rightarrow> xs = ys))"

subsection \<open>The methods of Metric and Datum that the store calls\<close>

text \<open>
  Modelled from the spec: \<^verbatim>\<open>Metric.GetDatum\<close>, \<^verbatim>\<open>Metric.RemoveDatum\<close> and
  \<^verbatim>\<open>Datum.TimeUTC\<close> are called by the store and defined in a file that is not among the
  sources. Section 4.4 of the specification: both work on exact ordered label tuples;
  GetDatum upserts (creates a zero Datum on a miss), RemoveDatum fails with a not-found
  condition if the tuple is absent. A Datum carries its last-write timestamp.
\<close>

definition zeroDatum :: Datum where
  "zeroDatum = \<lparr>Val = 0, Time = 0\<rparr>"

definition TimeUTC :: "Datum \<Rightarrow> int" where
  "TimeUTC d = Time d"

definition GetDatum :: "ptr \<Rightarrow> string list \<Rightarrow> heap \<Rightarrow> (error + Datum) \<times> heap" where
  "GetDatum m labels h =
     (case find (\<lambda>lv. Labels lv = labels) (LabelValues (h m)) of
        Some lv \<Rightarrow> (Inr (Value lv), h)
      | None \<Rightarrow>
          (Inr zeroDatum,
           h(m := (h m)\<lparr>LabelValues :=
                  LabelValues (h m) @ [\<lparr>Labels = labels, Value = zeroDatum, Expiry = 0\<rparr>]\<rparr>)))"

definition RemoveDatum :: "ptr \<Rightarrow> string list \<Rightarrow> heap \<Rightarrow> error option \<times> heap" where
  "RemoveDatum m labels h =
     (case find (\<lambda>lv. Labels lv = labels) (LabelValues (h m)) of
        None \<Rightarrow> (Some (NotFound labels), h)
      | Some lv \<Rightarrow>
          (None,
           h(m := (h m)\<lparr>LabelValues :=
                  filter (\<lambda>lv. Labels lv \<noteq> labels) (LabelValues (h m))\<rparr>)))"

subsection \<open>Time\<close>

text \<open>
  \<^verbatim>\<open>time.Time.Sub\<close> returns a Duration, a signed 64-bit count of nanoseconds, and
  saturates at the ends of that range.
\<close>

definition maxDuration :: int where
  "maxDuration = 2 ^ 63 - 1"

definition minDuration :: int where
  "minDuration = - (2 ^ 63)"

definition Sub :: "int \<Rightarrow> int \<Rightarrow> int" where
  "Sub t u =
     (if t - u > maxDuration then maxDuration
      else if t - u < minDuration then minDuration
      else t - u)"

section \<open>The store\<close>

text \<open>
  A \<^verbatim>\<open>maphash.Hash\<close> holds a seed and the bytes written to it, and its sum depends on
  the seed and on the sequence of those bytes only. A seed is given as the function from
  the byte sequence to the sum that it selects. The type of the sums is left open; Go's
  is a 64-bit word.
\<close>

record 'k Hash =
  Hash_seed :: "string \<Rightarrow> 'k"
  Hash_bytes :: string

definition SetSeed :: "(string \<Rightarrow> 'k) \<Rightarrow> 'k Hash" where
  "SetSeed sd = \<lparr>Hash_seed = sd, Hash_bytes = []\<rparr>"

definition WriteString :: "'k Hash \<Rightarrow> string \<Rightarrow> 'k Hash" where
  "WriteString h b = h\<lparr>Hash_bytes := Hash_bytes h @ b\<rparr>"

definition Sum64 :: "'k Hash \<Rightarrow> 'k" where
  "Sum64 h = Hash_seed h (Hash_bytes h)"

text \<open>
  \<open>Metrics\<close> is the \<^verbatim>\<open>sync.Map\<close> from hash keys to Metric pointers, as the list of its
  entries in the order in which \<^verbatim>\<open>sync.Map.Range\<close> visits them; that order is not
  specified, and the list is arbitrary.
\<close>

record 'k Store =
  Metrics :: "('k \<times> ptr) list"
  hashSeed :: "string \<Rightarrow> 'k"

definition syncMap_Load :: "'k \<Rightarrow> ('k \<times> ptr) list \<Rightarrow> ptr option" where
  "syncMap_Load key es = map_of es key"

definition syncMap_LoadOrStore ::
  "'k \<Rightarrow> ptr \<Rightarrow> ('k \<times> ptr) list \<Rightarrow> (ptr \<times> bool) \<times> ('k \<times> ptr) list" where
  "syncMap_LoadOrStore key value es =
     (case map_of es key of
        Some actual \<Rightarrow> ((actual, True), es)
      | None \<Rightarrow> ((value, False), es @ [(key, value)]))"

definition syncMap_Store :: "'k \<Rightarrow> ptr \<Rightarrow> ('k \<times> ptr) list \<Rightarrow> ('k \<times> ptr) list" where
  "syncMap_Store key value es = AList.update key value es"

fun syncMap_Range ::
  "('k \<Rightarrow> ptr \<Rightarrow> 's \<Rightarrow> bool \<times> 's) \<Rightarrow> ('k \<times> ptr) list \<Rightarrow> 's \<Rightarrow> 's" where
  "syncMap_Range f [] \<sigma> = \<sigma>"
| "syncMap_Range f ((key, value) # es) \<sigma> =
     (case f key value \<sigma> of
        (True, \<sigma>') \<Rightarrow> syncMap_Range f es \<sigma>'
      | (False, \<sigma>') \<Rightarrow> \<sigma>')"

definition syncMap_Delete :: "'k \<Rightarrow> ('k \<times> ptr) list \<Rightarrow> ('k \<times> ptr) list" where
  "syncMap_Delete key es = AList.delete key es"

definition ClearMetrics :: "'k Store \<Rightarrow> 'k Store" where
  "ClearMetrics s =
     s\<lparr>Metrics :=
         syncMap_Range (\<lambda>key value es. (True, syncMap_Delete key es)) (Metrics s) (Metrics s)\<rparr>"

text \<open>The seed of a new store is drawn at random by \<^verbatim>\<open>maphash.MakeSeed\<close>.\<close>

definition NewStore :: "(string \<Rightarrow> 'k) \<Rightarrow> 'k Store" where
  "NewStore sd = ClearMetrics \<lparr>Metrics = [], hashSeed = sd\<rparr>"

definition hashMetric :: "'k Store \<Rightarrow> string \<Rightarrow> string \<Rightarrow> 'k" where
  "hashMetric s name prog =
     (let h = SetSeed (hashSeed s);
          h = WriteString h name;
          h = WriteString h prog
      in Sum64 h)"

subsection \<open>Add\<close>

text \<open>
  \<open>Add\<close> calls \<open>RemoveDatum\<close> on the new Metric \<open>m\<close>, for tuples that \<open>m\<close> may not hold,
  and what the method returns there decides what the loop carries over. The method is
  not among the sources, so the loop and \<open>Add\<close> take it as the parameter \<open>rd\<close>;
  \<open>migrate\<close> and \<open>Add\<close> are the two at the \<open>RemoveDatum\<close> of section 4.4.

  The loop runs over the label values of the stored Metric \<open>v\<close>. Go evaluates the
  operand of \<^verbatim>\<open>range\<close> once, so the loop runs over the label values \<open>v\<close> had when it
  started; the calls read and change the heap as it is at each step.
\<close>

type_synonym remover = "ptr \<Rightarrow> string list \<Rightarrow> heap \<Rightarrow> error option \<times> heap"

fun migrate_with :: "remover \<Rightarrow> ptr \<Rightarrow> ptr \<Rightarrow> LabelValue list \<Rightarrow> heap \<Rightarrow> heap" where
  "migrate_with rd v m [] h = h"
| "migrate_with rd v m (oldLabel # rest) h =
     (case GetDatum v (Labels oldLabel) h of
        (Inl err, h1) \<Rightarrow> migrate_with rd v m rest h1
      | (Inr d, h1) \<Rightarrow>
          (case rd m (Labels oldLabel) h1 of
             (Some err, h2) \<Rightarrow> migrate_with rd v m rest h2
           | (None, h2) \<Rightarrow>
               migrate_with rd v m rest
                 (h2(m := (h2 m)\<lparr>LabelValues :=
                        LabelValues (h2 m) @
                          [\<lparr>Labels = Labels oldLabel, Value = d, Expiry = 0\<rparr>]\<rparr>))))"

definition Add_with ::
  "remover \<Rightarrow> 'k Store \<Rightarrow> ptr \<Rightarrow> heap \<Rightarrow> error option \<times> 'k Store \<times> heap" where
  "Add_with rd s m h =
     (let k = hashMetric s (Name (h m)) (Program (h m));
          ((actual, loaded), es) = syncMap_LoadOrStore k m (Metrics s);
          s1 = s\<lparr>Metrics := es\<rparr>
      in if \<not> loaded then (None, s1, h)
         else
           let v = actual
           in if Kind (h m) \<noteq> Kind (h v)
              then (Some (DifferentKind (Name (h m)) (Kind (h m)) v), s1, h)
              else
                let h' = (if len (Keys (h v)) = len (Keys (h m)) \<and>
                             DeepEqual (Keys (h v)) (Keys (h m))
                          then migrate_with rd v m (LabelValues (h v)) h
                          else h)
                in (None, s1\<lparr>Metrics := syncMap_Store k m (Metrics s1)\<rparr>, h'))"

definition migrate :: "ptr \<Rightarrow> ptr \<Rightarrow> LabelValue list \<Rightarrow> heap \<Rightarrow> heap" where
  "migrate = migrate_with RemoveDatum"

definition Add :: "'k Store \<Rightarrow> ptr \<Rightarrow> heap \<Rightarrow> error option \<times> 'k Store \<times> heap" where
  "Add = Add_with RemoveDatum"

subsection \<open>FindMetricOrNil\<close>

definition FindMetricOrNil :: "'k Store \<Rightarrow> string \<Rightarrow> string \<Rightarrow> ptr option" where
  "FindMetricOrNil s name prog =
     (let k = hashMetric s name prog
      in case syncMap_Load k (Metrics s) of
           Some m \<Rightarrow> Some m
         | None \<Rightarrow> None)"

subsection \<open>Range\<close>

text \<open>
  The callback of \<open>Range\<close> gets a Metric pointer and may change whatever it holds but
  the map being ranged over; its effect is a function on a state. The closure handed to \<^verbatim>\<open>sync.Map.Range\<close>
  (\<open>Range_func\<close>) keeps the error in the named result \<open>r\<close> and returns false to stop;
  \<open>Range_entries\<close> is the run over a given list of entries, with \<open>r\<close> nil at the start.
\<close>

definition Range_func ::
  "(ptr \<Rightarrow> 's \<Rightarrow> error option \<times> 's) \<Rightarrow>
   'k \<Rightarrow> ptr \<Rightarrow> error option \<times> 's \<Rightarrow> bool \<times> error option \<times> 's" where
  "Range_func f key value =
     (\<lambda>(r, \<sigma>).
        case f value \<sigma> of
          (Some err, \<sigma>') \<Rightarrow> (False, (Some err, \<sigma>'))
        | (None, \<sigma>') \<Rightarrow> (True, (r, \<sigma>')))"

definition Range_entries ::
  "(ptr \<Rightarrow> 's \<Rightarrow> error option \<times> 's) \<Rightarrow> ('k \<times> ptr) list \<Rightarrow> 's \<Rightarrow> error option \<times> 's" where
  "Range_entries f es \<sigma> = syncMap_Range (Range_func f) es (None, \<sigma>)"

definition Range ::
  "'k Store \<Rightarrow> (ptr \<Rightarrow> 's \<Rightarrow> error option \<times> 's) \<Rightarrow> 's \<Rightarrow> error option \<times> 's" where
  "Range s f \<sigma> = Range_entries f (Metrics s) \<sigma>"

subsection \<open>Gc\<close>

text \<open>
  \<open>now\<close> is the reading of the clock at the start of \<open>Gc\<close>. The callback runs over the
  label values the Metric had when the callback started, since \<^verbatim>\<open>range\<close> evaluates its
  operand once; \<open>RemoveDatum\<close> as modelled gives the Metric a new list and leaves the
  one being run over as it was.
\<close>

fun Gc_loop :: "int \<Rightarrow> ptr \<Rightarrow> LabelValue list \<Rightarrow> heap \<Rightarrow> error option \<times> heap" where
  "Gc_loop now m [] h = (None, h)"
| "Gc_loop now m (lv # rest) h =
     (if Expiry lv \<le> 0 then Gc_loop now m rest h
      else if Sub now (TimeUTC (Value lv)) > Expiry lv
      then (case RemoveDatum m (Labels lv) h of
              (Some err, h') \<Rightarrow> (Some err, h')
            | (None, h') \<Rightarrow> Gc_loop now m rest h')
      else Gc_loop now m rest h)"

definition Gc_func :: "int \<Rightarrow> ptr \<Rightarrow> heap \<Rightarrow> error option \<times> heap" where
  "Gc_func now m h = Gc_loop now m (LabelValues (h m)) h"

definition Gc :: "int \<Rightarrow> 'k Store \<Rightarrow> heap \<Rightarrow> error option \<times> 'k Store \<times> heap" where
  "Gc now s h = (case Range s (Gc_func now) h of (r, h') \<Rightarrow> (r, s, h'))"

text \<open>
  The two tests of the loop of \<open>Gc\<close> on a label value: the expiry is positive, and the
  time since the last write of the Datum exceeds it.
\<close>

definition stale :: "int \<Rightarrow> LabelValue \<Rightarrow> bool" where
  "stale now lv = (0 < Expiry lv \<and> Expiry lv < Sub now (TimeUTC (Value lv)))"

text \<open>
  A callback together with the list of the Metrics it has been called on, to state
  which Metrics a run of \<open>Range\<close> hands to its callback.
\<close>

definition traced ::
  "(ptr \<Rightarrow> 's \<Rightarrow> error option \<times> 's) \<Rightarrow> ptr \<Rightarrow> 's \<times> ptr list \<Rightarrow> error option \<times> 's \<times> ptr list" where
  "traced f m = (\<lambda>(\<sigma>, calls). case f m \<sigma> of (r, \<sigma>') \<Rightarrow> (r, \<sigma>', calls @ [m]))"

section \<open>The code generator\<close>

text \<open>
  Modelled from the spec: of the compiler the sources hold the table \<open>programs\<close> of the
  Go test \<open>TestCompile\<close> only, programs with the bytecode expected of them; the type of
  instructions, the function \<open>Compile\<close> that the test calls, the parser before it and the
  syntax tree between the two are not among the sources. Sections 3 and 4.1 of the
  specification: an instruction is an opcode with one operand, and the opcodes are a
  closed vocabulary; \<open>inc_op\<close> and \<open>set_op\<close> are the opcodes \<open>inc\<close> and \<open>set\<close>.
\<close>

datatype opcode =
  match | jnm | jm | jmp | push | pop | capref | str | mload | dload
  | inc_op | set_op | cmp | s2i | i2s | s2f | f2s | setmatched | strptime

datatype instr = instr opcode int

text \<open>
  Modelled from the spec: the code generator. Section 6 makes its input a parsed
  program, and sections 4.2 and 4.3 say what it emits: a conditional evaluates its
  condition and branches on false past the action block, with the operand of the jump
  patched in once the block has been emitted; a pattern is interned into a table and
  \<open>match\<close> refers to it by index; a declared metric is interned into a constant table
  and \<open>mload\<close> refers to it by position; a reference to an undeclared metric is an
  error; a relational operator becomes a \<open>cmp\<close> with the operand and the branch of the
  table of section 4.3. The syntax covers the statements of the rows of the test table
  that have a pattern or a comparison of two literals as condition and an increment as
  action; the increment is \<open>mload\<close> of the metric and \<open>inc 0\<close>, as in those rows.
\<close>

datatype relop = Lt | Le | Eq | Ne | Ge | Gt

datatype expr = IntLit int

datatype cond = PatternCond string | RelCond relop expr expr

datatype stmt =
  CounterDecl string
  | CondStmt cond "stmt list"
  | IncStmt string

datatype compile_error = UndeclaredMetric string

record compiler =
  prog :: "instr list"
  re :: "string list"
  metrics :: "string list"

fun index_of :: "'a \<Rightarrow> 'a list \<Rightarrow> nat option" where
  "index_of x [] = None"
| "index_of x (y # ys) = (if x = y then Some 0 else map_option Suc (index_of x ys))"

definition intern :: "string \<Rightarrow> string list \<Rightarrow> nat \<times> string list" where
  "intern x tbl =
     (case index_of x tbl of
        Some i \<Rightarrow> (i, tbl)
      | None \<Rightarrow> (length tbl, tbl @ [x]))"

definition emit :: "instr \<Rightarrow> compiler \<Rightarrow> compiler" where
  "emit i c = c\<lparr>prog := prog c @ [i]\<rparr>"

fun cmp_arg :: "relop \<Rightarrow> int" where
  "cmp_arg Lt = - 1"
| "cmp_arg Le = 1"
| "cmp_arg Eq = 0"
| "cmp_arg Ne = 0"
| "cmp_arg Ge = - 1"
| "cmp_arg Gt = 1"

fun branch_op :: "relop \<Rightarrow> opcode" where
  "branch_op Lt = jnm"
| "branch_op Le = jm"
| "branch_op Eq = jnm"
| "branch_op Ne = jm"
| "branch_op Ge = jm"
| "branch_op Gt = jnm"

fun compile_expr :: "expr \<Rightarrow> compiler \<Rightarrow> compiler" where
  "compile_expr (IntLit n) c = emit (instr push n) c"

text \<open>
  The condition leaves its outcome for the branch that follows; the result names the
  opcode of that branch.
\<close>

fun compile_cond :: "cond \<Rightarrow> compiler \<Rightarrow> opcode \<times> compiler" where
  "compile_cond (PatternCond p) c =
     (case intern p (re c) of
        (i, tbl) \<Rightarrow> (jnm, emit (instr match (int i)) (c\<lparr>re := tbl\<rparr>)))"
| "compile_cond (RelCond rel a b) c =
     (branch_op rel, emit (instr cmp (cmp_arg rel)) (compile_expr b (compile_expr a c)))"

fun compile_stmt :: "stmt \<Rightarrow> compiler \<Rightarrow> compile_error + compiler"
  and compile_block :: "stmt list \<Rightarrow> compiler \<Rightarrow> compile_error + compiler" where
  "compile_stmt (CounterDecl name) c = Inr (c\<lparr>metrics := snd (intern name (metrics c))\<rparr>)"
| "compile_stmt (IncStmt name) c =
     (case index_of name (metrics c) of
        None \<Rightarrow> Inl (UndeclaredMetric name)
      | Some i \<Rightarrow> Inr (emit (instr inc_op 0) (emit (instr mload (int i)) c)))"
| "compile_stmt (CondStmt cnd body) c =
     (case compile_cond cnd c of
        (br, c1) \<Rightarrow>
          (case compile_block body (emit (instr br 0) c1) of
             Inl e \<Rightarrow> Inl e
           | Inr c2 \<Rightarrow>
               Inr (c2\<lparr>prog :=
                     (prog c2)[length (prog c1) := instr br (int (length (prog c2)))]\<rparr>)))"
| "compile_block [] c = Inr c"
| "compile_block (s # ss) c =
     (case compile_stmt s c of
        Inl e \<Rightarrow> Inl e
      | Inr c' \<Rightarrow> compile_block ss c')"

definition Compile :: "string \<Rightarrow> stmt list \<Rightarrow> (string \<times> compile_error) + compiler" where
  "Compile name ast =
     (case compile_block ast \<lparr>prog = [], re = [], metrics = []\<rparr> of
        Inl e \<Rightarrow> Inl (name, e)
      | Inr c \<Rightarrow> Inr c)"

text \<open>
  The rows of the test table \<open>programs\<close> that the syntax covers: the name, the parsed
  source and the expected bytecode. The sources are
  \<^verbatim>\<open>counter line_count\n/$/ { line_count++ }\<close>,
  \<^verbatim>\<open>counter a_count\n/a$/ { a_count++ }\<close> and, for each relational operator,
  \<^verbatim>\<open>counter foo\n1 OP 0 {\n  foo++\n}\n\<close>.
\<close>

definition cond_expr :: "relop \<Rightarrow> stmt list" where
  "cond_expr rel =
     [CounterDecl ''foo'', CondStmt (RelCond rel (IntLit 1) (IntLit 0)) [IncStmt ''foo'']]"

definition programs :: "(string \<times> stmt list \<times> instr list) list" where
  "programs =
     [(''simple line counter'',
       [CounterDecl ''line_count'', CondStmt (PatternCond ''$'') [IncStmt ''line_count'']],
       [instr match 0, instr jnm 4, instr mload 0, instr inc_op 0]),
      (''count a'',
       [CounterDecl ''a_count'', CondStmt (PatternCond ''a$'') [IncStmt ''a_count'']],
       [instr match 0, instr jnm 4, instr mload 0, instr inc_op 0]),
      (''cond expr gt'', cond_expr Gt,
       [instr push 1, instr push 0, instr cmp 1, instr jnm 6, instr mload 0, instr inc_op 0]),
      (''cond expr lt'', cond_expr Lt,
       [instr push 1, instr push 0, instr cmp (- 1), instr jnm 6, instr mload 0, instr inc_op 0]),
      (''cond expr eq'', cond_expr Eq,
       [instr push 1, instr push 0, instr cmp 0, instr jnm 6, instr mload 0, instr inc_op 0]),
      (''cond expr le'', cond_expr Le,
       [instr push 1, instr push 0, instr cmp 1, instr jm 6, instr mload 0, instr inc_op 0]),
      (''cond expr ge'', cond_expr Ge,
       [instr push 1, instr push 0, instr cmp (- 1), instr jm 6, instr mload 0, instr inc_op 0]),
      (''cond expr ne'', cond_expr Ne,
       [instr push 1, instr push 0, instr cmp 0, instr jm 6, instr mload 0, instr inc_op 0])]"

text \<open>The bytecode of a compilation, when it succeeded.\<close>

definition bytecode :: "(string \<times> compile_error) + compiler \<Rightarrow> instr list option" where
  "bytecode r = (case r of Inl e \<Rightarrow> None | Inr v \<Rightarrow> Some (prog v))"

text \<open>
  The body of a block for a run of the compiler: an increment, then a nested block
  under a comparison.
\<close>

definition nested_body :: "stmt list" where
  "nested_body =
     [IncStmt ''bar'', CondStmt (RelCond Le (IntLit 1) (IntLit 0)) [IncStmt ''foo'']]"

section \<open>Concrete stores\<close>

text \<open>
  The data of the concrete runs below. \<open>byteSeed\<close> is the seed whose sum is the written
  bytes themselves, a hash without collisions; \<open>heap_of\<close> puts the Metrics of a list
  behind the pointers \<open>0, 1, \<dots>\<close>.
\<close>

definition byteSeed :: "string \<Rightarrow> string" where
  "byteSeed b = b"

definition heap_of :: "Metric list \<Rightarrow> heap" where
  "heap_of ms p =
     (if p < length ms then ms ! p
      else \<lparr>Name = [], Program = [], Kind = Counter, Keys = None, LabelValues = []\<rparr>)"

definition foo_stored :: Metric where
  "foo_stored =
     \<lparr>Name = ''foo'', Program = ''bar.mtail'', Kind = Counter, Keys = Some [''host''],
      LabelValues = [\<lparr>Labels = [''a''], Value = \<lparr>Val = 5, Time = 100\<rparr>, Expiry = 0\<rparr>]\<rparr>"

definition foo_fresh :: Metric where
  "foo_fresh =
     \<lparr>Name = ''foo'', Program = ''bar.mtail'', Kind = Counter, Keys = Some [''host''],
      LabelValues = []\<rparr>"

definition foo_gauge :: Metric where
  "foo_gauge =
     \<lparr>Name = ''foo'', Program = ''bar.mtail'', Kind = Gauge, Keys = Some [''host''],
      LabelValues = []\<rparr>"

definition foo_rekeyed :: Metric where
  "foo_rekeyed =
     \<lparr>Name = ''foo'', Program = ''bar.mtail'', Kind = Counter, Keys = Some [''host'', ''user''],
      LabelValues = []\<rparr>"

definition foo_store :: "string Store" where
  "foo_store = \<lparr>Metrics = [(''foobar.mtail'', 0)], hashSeed = byteSeed\<rparr>"


definition foob :: Metric where
  "foob =
     \<lparr>Name = ''foob'', Program = ''ar.mtail'', Kind = Counter, Keys = None, LabelValues = []\<rparr>"

text \<open>
  A store of three Metrics for the runs of \<open>Range\<close> and \<open>Gc\<close> at the time 20. \<open>hits\<close>
  has a tuple that expired, one that is exactly as old as its expiry, and one with no
  expiry; the one tuple of \<open>gone\<close> expired; \<open>twice\<close> holds the same expired tuple two
  times. \<open>fail_on\<close> is a callback that counts its calls and fails on one Metric.
\<close>

definition lv_old :: LabelValue where
  "lv_old = \<lparr>Labels = [''/old''], Value = \<lparr>Val = 3, Time = 10\<rparr>, Expiry = 5\<rparr>"

definition lv_edge :: LabelValue where
  "lv_edge = \<lparr>Labels = [''/edge''], Value = \<lparr>Val = 1, Time = 15\<rparr>, Expiry = 5\<rparr>"

definition lv_keep :: LabelValue where
  "lv_keep = \<lparr>Labels = [''/keep''], Value = \<lparr>Val = 7, Time = 0\<rparr>, Expiry = 0\<rparr>"

definition hits :: Metric where
  "hits =
     \<lparr>Name = ''hits'', Program = ''web.mtail'', Kind = Counter, Keys = Some [''path''],
      LabelValues = [lv_old, lv_edge, lv_keep]\<rparr>"

definition gone :: Metric where
  "gone =
     \<lparr>Name = ''gone'', Program = ''web.mtail'', Kind = Gauge, Keys = Some [''path''],
      LabelValues = [\<lparr>Labels = [''/x''], Value = \<lparr>Val = 1, Time = 0\<rparr>, Expiry = 1\<rparr>]\<rparr>"

definition lv_dup1 :: LabelValue where
  "lv_dup1 = \<lparr>Labels = [''/dup''], Value = \<lparr>Val = 1, Time = 0\<rparr>, Expiry = 1\<rparr>"

definition lv_dup2 :: LabelValue where
  "lv_dup2 = \<lparr>Labels = [''/dup''], Value = \<lparr>Val = 2, Time = 0\<rparr>, Expiry = 1\<rparr>"

definition twice :: Metric where
  "twice =
     \<lparr>Name = ''twice'', Program = ''web.mtail'', Kind = Counter, Keys = Some [''path''],
      LabelValues = [lv_dup1, lv_dup2]\<rparr>"

definition web_store :: "string Store" where
  "web_store = \<lparr>Metrics = [(''hitsweb.mtail'', 0), (''goneweb.mtail'', 1)], hashSeed = byteSeed\<rparr>"

definition fail_on :: "ptr \<Rightarrow> ptr \<Rightarrow> nat \<Rightarrow> error option \<times> nat" where
  "fail_on bad m n = (if m = bad then (Some (Failure ''stop''), n) else (None, Suc n))"

definition three_store :: "string Store" where
  "three_store =
     \<lparr>Metrics = [(''hitsweb.mtail'', 0), (''twiceweb.mtail'', 1), (''goneweb.mtail'', 2)],
      hashSeed = byteSeed\<rparr>"

text \<open>
  The heap of the three Metrics, the heap after the sweep of \<open>hits\<close>, and the heap after
  the first removal in \<open>twice\<close>, which takes both label values of its tuple.
\<close>

definition three_heap :: heap where
  "three_heap = heap_of [hits, twice, gone]"

definition three_heap1 :: heap where
  "three_heap1 = three_heap(0 := hits\<lparr>LabelValues := [lv_edge, lv_keep]\<rparr>)"

definition three_heap2 :: heap where
  "three_heap2 = three_heap1(1 := twice\<lparr>LabelValues := []\<rparr>)"

section \<open>Basic facts\<close>

lemma heap_of_0 [simp]: "heap_of (a # ms) 0 = a"
  by (simp add: heap_of_def)

lemma heap_of_Suc [simp]: "heap_of (a # ms) (Suc p) = heap_of ms p"
  by (simp add: heap_of_def)

lemma hits_eq: "LabelValues hits = [lv_old, lv_edge, lv_keep]"
  by (simp add: hits_def)

lemma twice_eq: "LabelValues twice = [lv_dup1, lv_dup2]"
  by (simp add: twice_def)

lemma three_heap_at [simp]:
  "three_heap 0 = hits" "three_heap (Suc 0) = twice" "three_heap (Suc (Suc 0)) = gone"
  by (simp_all add: three_heap_def)

lemma Sub_small [simp]: "Sub 20 10 = 10" "Sub 20 15 = 5" "Sub 20 0 = 20"
  by (simp_all add: Sub_def maxDuration_def minDuration_def)

lemma hashMetric_eq: "hashMetric s a b = hashSeed s (a @ b)"
  by (simp add: hashMetric_def SetSeed_def WriteString_def Sum64_def)

lemma NewStore_eq: "NewStore sd = \<lparr>Metrics = [], hashSeed = sd\<rparr>"
  by (simp add: NewStore_def ClearMetrics_def)

lemma migrate_Nil [simp]: "migrate v m [] h = h"
  unfolding migrate_def by simp

lemma migrate_Cons [simp]:
  "migrate v m (oldLabel # rest) h =
     (case GetDatum v (Labels oldLabel) h of
        (Inl err, h1) \<Rightarrow> migrate v m rest h1
      | (Inr d, h1) \<Rightarrow>
          (case RemoveDatum m (Labels oldLabel) h1 of
             (Some err, h2) \<Rightarrow> migrate v m rest h2
           | (None, h2) \<Rightarrow>
               migrate v m rest
                 (h2(m := (h2 m)\<lparr>LabelValues :=
                        LabelValues (h2 m) @
                          [\<lparr>Labels = Labels oldLabel, Value = d, Expiry = 0\<rparr>]\<rparr>))))"
  unfolding migrate_def by simp

lemma Add_unfold:
  "Add s m h =
     (let k = hashMetric s (Name (h m)) (Program (h m));
          ((actual, loaded), es) = syncMap_LoadOrStore k m (Metrics s);
          s1 = s\<lparr>Metrics := es\<rparr>
      in if \<not> loaded then (None, s1, h)
         else
           let v = actual
           in if Kind (h m) \<noteq> Kind (h v)
              then (Some (DifferentKind (Name (h m)) (Kind (h m)) v), s1, h)
              else
                let h' = (if len (Keys (h v)) = len (Keys (h m)) \<and>
                             DeepEqual (Keys (h v)) (Keys (h m))
                          then migrate v m (LabelValues (h v)) h
                          else h)
                in (None, s1\<lparr>Metrics := syncMap_Store k m (Metrics s1)\<rparr>, h'))"
  unfolding Add_def Add_with_def migrate_def by (rule refl)

lemma syncMap_Load_Store:
  "syncMap_Load k (syncMap_Store k m es) = Some m"
  by (simp add: syncMap_Load_def syncMap_Store_def update_conv')

lemma syncMap_Load_Store_other:
  "k' \<noteq> k \<Longrightarrow> syncMap_Load k' (syncMap_Store k m es) = syncMap_Load k' es"
  by (simp add: syncMap_Load_def syncMap_Store_def update_conv')

lemma DeepEqual_iff: "DeepEqual a b \<longleftrightarrow> a = b"
  by (simp add: DeepEqual_def split: option.splits)

subsection \<open>GetDatum and RemoveDatum\<close>

lemma find_None_labels:
  "find (\<lambda>lv. Labels lv = ls) xs = None \<longleftrightarrow> ls \<notin> Labels ` set xs"
  by (auto simp: find_None_iff)

lemma RemoveDatum_present:
  "ls \<in> Labels ` set (LabelValues (h m)) \<Longrightarrow>
   RemoveDatum m ls h =
     (None, h(m := (h m)\<lparr>LabelValues := filter (\<lambda>lv. Labels lv \<noteq> ls) (LabelValues (h m))\<rparr>))"
  using find_None_labels[of ls "LabelValues (h m)"]
  by (auto simp: RemoveDatum_def split: option.splits)

lemma RemoveDatum_absent:
  "ls \<notin> Labels ` set (LabelValues (h m)) \<Longrightarrow> RemoveDatum m ls h = (Some (NotFound ls), h)"
  using find_None_labels[of ls "LabelValues (h m)"]
  by (auto simp: RemoveDatum_def split: option.splits)

lemma find_labels_distinct:
  "distinct (map Labels xs) \<Longrightarrow> lv \<in> set xs \<Longrightarrow> find (\<lambda>x. Labels x = Labels lv) xs = Some lv"
  by (induction xs) (auto simp: image_iff)

lemma GetDatum_present:
  "distinct (map Labels (LabelValues (h v))) \<Longrightarrow> lv \<in> set (LabelValues (h v)) \<Longrightarrow>
   GetDatum v (Labels lv) h = (Inr (Value lv), h)"
  by (simp add: GetDatum_def find_labels_distinct)

text \<open>
  The label tuples of a Metric stay pairwise different under both methods: GetDatum adds
  a tuple only when it is missing.
\<close>

lemma GetDatum_distinct:
  "distinct (map Labels (LabelValues (h q))) \<Longrightarrow>
   distinct (map Labels (LabelValues (snd (GetDatum m ls h) q)))"
  using find_None_labels[of ls "LabelValues (h m)"]
  by (auto simp: GetDatum_def split: option.splits)

lemma RemoveDatum_distinct:
  "distinct (map Labels (LabelValues (h q))) \<Longrightarrow>
   distinct (map Labels (LabelValues (snd (RemoveDatum m ls h) q)))"
  by (auto simp: RemoveDatum_def distinct_map_filter split: option.splits)

lemma RemoveDatum_None_absent:
  assumes "RemoveDatum m ls h = (None, h')"
  shows "ls \<notin> Labels ` set (LabelValues (h' m))"
  using assms by (auto simp: RemoveDatum_def split: option.splits)

section \<open>Properties of Add and FindMetricOrNil\<close>

text \<open>
  C2. When the key of \<open>m\<close> is present and the stored Metric \<open>v\<close> has another Kind,
  \<open>Add\<close> returns an error, and neither the store nor any Metric has changed: the entry
  still holds \<open>v\<close>, with its Keys and all its label values.
\<close>

theorem Add_different_Kind_fails:
  assumes "syncMap_Load (hashMetric s (Name (h m)) (Program (h m))) (Metrics s) = Some v"
    and "Kind (h m) \<noteq> Kind (h v)"
  shows "Add s m h = (Some (DifferentKind (Name (h m)) (Kind (h m)) v), s, h)"
  using assms by (simp add: Add_unfold syncMap_LoadOrStore_def syncMap_Load_def)

theorem Add_different_Kind_fails_witness:
  "syncMap_Load (hashMetric foo_store (Name (heap_of [foo_stored, foo_gauge] 1))
       (Program (heap_of [foo_stored, foo_gauge] 1))) (Metrics foo_store) = Some 0
   \<and> Kind (heap_of [foo_stored, foo_gauge] 1) \<noteq> Kind (heap_of [foo_stored, foo_gauge] 0)
   \<and> Add foo_store 1 (heap_of [foo_stored, foo_gauge]) =
       (Some (DifferentKind ''foo'' Gauge 0), foo_store, heap_of [foo_stored, foo_gauge])
   \<and> FindMetricOrNil foo_store ''foo'' ''bar.mtail'' = Some 0
   \<and> LabelValues (heap_of [foo_stored, foo_gauge] 0) =
       [\<lparr>Labels = [''a''], Value = \<lparr>Val = 5, Time = 100\<rparr>, Expiry = 0\<rparr>]"
proof -
  have load: "syncMap_Load (hashMetric foo_store (Name (heap_of [foo_stored, foo_gauge] 1))
       (Program (heap_of [foo_stored, foo_gauge] 1))) (Metrics foo_store) = Some 0"
    by (simp add: syncMap_Load_def hashMetric_eq foo_store_def foo_gauge_def byteSeed_def)
  have kind: "Kind (heap_of [foo_stored, foo_gauge] 1) \<noteq> Kind (heap_of [foo_stored, foo_gauge] 0)"
    by (simp add: foo_gauge_def foo_stored_def)
  have "Add foo_store 1 (heap_of [foo_stored, foo_gauge]) =
       (Some (DifferentKind ''foo'' Gauge 0), foo_store, heap_of [foo_stored, foo_gauge])"
    using Add_different_Kind_fails [OF load kind] by (simp add: foo_gauge_def)
  moreover have "FindMetricOrNil foo_store ''foo'' ''bar.mtail'' = Some 0"
    by (simp add: FindMetricOrNil_def syncMap_Load_def hashMetric_eq foo_store_def byteSeed_def)
  moreover have "LabelValues (heap_of [foo_stored, foo_gauge] 0) =
       [\<lparr>Labels = [''a''], Value = \<lparr>Val = 5, Time = 100\<rparr>, Expiry = 0\<rparr>]"
    by (simp add: foo_stored_def)
  ultimately show ?thesis using load kind by blast
qed

text \<open>
  C8. When the key of \<open>m\<close> is present, the stored Metric \<open>v\<close> has the Kind of \<open>m\<close> and
  the Keys of the two differ (in length, in content, or as a nil slice from an empty
  one), \<open>Add\<close> puts \<open>m\<close> in the place of \<open>v\<close> and changes no Metric: \<open>m\<close> keeps the label
  values it came with and gets no Datum of \<open>v\<close>, which the store no longer holds under
  that key.
\<close>

theorem Add_different_Keys_discards:
  assumes "syncMap_Load (hashMetric s (Name (h m)) (Program (h m))) (Metrics s) = Some v"
    and "Kind (h m) = Kind (h v)"
    and "Keys (h v) \<noteq> Keys (h m)"
  shows "Add s m h =
           (None,
            s\<lparr>Metrics := syncMap_Store (hashMetric s (Name (h m)) (Program (h m))) m (Metrics s)\<rparr>,
            h)
         \<and> FindMetricOrNil (fst (snd (Add s m h))) (Name (h m)) (Program (h m)) = Some m"
proof -
  have "Add s m h =
           (None,
            s\<lparr>Metrics := syncMap_Store (hashMetric s (Name (h m)) (Program (h m))) m (Metrics s)\<rparr>,
            h)"
    using assms
    by (simp add: Add_unfold syncMap_LoadOrStore_def syncMap_Load_def DeepEqual_iff)
  then show ?thesis
    using syncMap_Load_Store [of "hashMetric s (Name (h m)) (Program (h m))" m "Metrics s"]
    by (simp add: FindMetricOrNil_def hashMetric_eq)
qed

theorem Add_different_Keys_discards_witness:
  "syncMap_Load (hashMetric foo_store (Name (heap_of [foo_stored, foo_rekeyed] 1))
       (Program (heap_of [foo_stored, foo_rekeyed] 1))) (Metrics foo_store) = Some 0
   \<and> Kind (heap_of [foo_stored, foo_rekeyed] 1) = Kind (heap_of [foo_stored, foo_rekeyed] 0)
   \<and> Keys (heap_of [foo_stored, foo_rekeyed] 0) \<noteq> Keys (heap_of [foo_stored, foo_rekeyed] 1)
   \<and> Add foo_store 1 (heap_of [foo_stored, foo_rekeyed]) =
       (None, foo_store\<lparr>Metrics := [(''foobar.mtail'', 1)]\<rparr>, heap_of [foo_stored, foo_rekeyed])
   \<and> LabelValues (heap_of [foo_stored, foo_rekeyed] 1) = []"
proof -
  have load: "syncMap_Load (hashMetric foo_store (Name (heap_of [foo_stored, foo_rekeyed] 1))
       (Program (heap_of [foo_stored, foo_rekeyed] 1))) (Metrics foo_store) = Some 0"
    by (simp add: syncMap_Load_def hashMetric_eq foo_store_def foo_rekeyed_def byteSeed_def)
  have kind: "Kind (heap_of [foo_stored, foo_rekeyed] 1) = Kind (heap_of [foo_stored, foo_rekeyed] 0)"
    by (simp add: foo_rekeyed_def foo_stored_def)
  have keys: "Keys (heap_of [foo_stored, foo_rekeyed] 0) \<noteq> Keys (heap_of [foo_stored, foo_rekeyed] 1)"
    by (simp add: foo_rekeyed_def foo_stored_def)
  have "Add foo_store 1 (heap_of [foo_stored, foo_rekeyed]) =
       (None, foo_store\<lparr>Metrics := [(''foobar.mtail'', 1)]\<rparr>, heap_of [foo_stored, foo_rekeyed])"
    using Add_different_Keys_discards [OF load kind keys]
    by (simp add: foo_rekeyed_def hashMetric_eq foo_store_def byteSeed_def syncMap_Store_def)
  moreover have "LabelValues (heap_of [foo_stored, foo_rekeyed] 1) = []"
    by (simp add: foo_rekeyed_def)
  ultimately show ?thesis using load kind keys by blast
qed

subsection \<open>A key that is not in the store\<close>

lemma hashMetric_concat: "hashMetric s (a @ b) c = hashMetric s a (b @ c)"
  by (simp add: hashMetric_eq)

text \<open>
  When the key of \<open>m\<close> is absent, \<open>Add\<close> stores \<open>m\<close> itself and returns nil, and
  \<open>FindMetricOrNil\<close> on the name and program of \<open>m\<close> then returns \<open>m\<close>.
\<close>

lemma Add_absent:
  assumes "syncMap_Load (hashMetric s (Name (h m)) (Program (h m))) (Metrics s) = None"
  shows "Add s m h =
    (None, s\<lparr>Metrics := Metrics s @ [(hashMetric s (Name (h m)) (Program (h m)), m)]\<rparr>, h)
    \<and> FindMetricOrNil (fst (snd (Add s m h))) (Name (h m)) (Program (h m)) = Some m"
  using assms
  by (simp add: Add_unfold syncMap_LoadOrStore_def syncMap_Load_def FindMetricOrNil_def
      hashMetric_eq map_add_def)

text \<open>
  The key is the sum of the name followed by the program, with nothing between them.
  So a Metric added under one name and program is found under every other way to cut
  the same bytes, whatever the seed.
\<close>

lemma Find_other_cut:
  assumes "syncMap_Load (hashMetric s (a @ b) c) (Metrics s) = None"
    and "Name (h m) = a @ b" and "Program (h m) = c"
  shows "FindMetricOrNil (fst (snd (Add s m h))) a (b @ c) = Some m"
  using assms
  by (simp add: Add_unfold syncMap_LoadOrStore_def syncMap_Load_def FindMetricOrNil_def
      hashMetric_eq map_add_def)

text \<open>
  C9. In a new store, after the one Metric \<open>foob\<close> of the program \<open>ar.mtail\<close> has been
  added, \<open>FindMetricOrNil\<close> on the name \<open>foo\<close> and the program \<open>bar.mtail\<close>, a pair
  that was never added, returns that Metric and not nil. (That \<open>Add\<close> on an absent key
  stores \<open>m\<close> and \<open>FindMetricOrNil\<close> then returns it is \<open>Add_absent\<close>.)
\<close>

theorem FindMetricOrNil_never_added:
  "Add (NewStore byteSeed) 0 (heap_of [foob]) =
     (None, \<lparr>Metrics = [(''foobar.mtail'', 0)], hashSeed = byteSeed\<rparr>, heap_of [foob])
   \<and> FindMetricOrNil \<lparr>Metrics = [(''foobar.mtail'', 0)], hashSeed = byteSeed\<rparr>
        ''foo'' ''bar.mtail'' = Some 0
   \<and> (''foo'', ''bar.mtail'') \<noteq> (Name foob, Program foob)"
  by (simp add: Add_unfold NewStore_eq syncMap_LoadOrStore_def syncMap_Load_def FindMetricOrNil_def
      hashMetric_eq byteSeed_def foob_def)

subsection \<open>A key that holds a Metric of the same Kind and Keys\<close>

text \<open>
  \<open>Add\<close> keeps the label tuples of every Metric pairwise different: it appends a tuple
  to \<open>m\<close> only after \<open>RemoveDatum\<close> has taken that tuple out of \<open>m\<close>.
\<close>

lemma migrate_distinct:
  "distinct (map Labels (LabelValues (h q))) \<Longrightarrow>
   distinct (map Labels (LabelValues (migrate v m lvs h q)))"
proof (induction lvs arbitrary: h)
  case Nil
  then show ?case by simp
next
  case (Cons lv lvs)
  obtain g h1 where gd: "GetDatum v (Labels lv) h = (g, h1)" by (cases "GetDatum v (Labels lv) h")
  have d1: "distinct (map Labels (LabelValues (h1 q)))"
    using GetDatum_distinct[of h q v "Labels lv"] Cons.prems gd by simp
  show ?case
  proof (cases g)
    case (Inl err)
    then show ?thesis using gd Cons.IH[of h1] d1 by simp
  next
    case (Inr d)
    obtain r h2 where rd: "RemoveDatum m (Labels lv) h1 = (r, h2)"
      by (cases "RemoveDatum m (Labels lv) h1")
    have d2: "distinct (map Labels (LabelValues (h2 q)))"
      using RemoveDatum_distinct[of h1 q m "Labels lv"] d1 rd by simp
    show ?thesis
    proof (cases r)
      case (Some err)
      then show ?thesis using gd Inr rd Cons.IH[of h2] d2 by simp
    next
      case None
      let ?h3 = "h2(m := (h2 m)\<lparr>LabelValues :=
          LabelValues (h2 m) @ [\<lparr>Labels = Labels lv, Value = d, Expiry = 0\<rparr>]\<rparr>)"
      have "Labels lv \<notin> Labels ` set (LabelValues (h2 m))"
        using RemoveDatum_None_absent rd None by blast
      then have "distinct (map Labels (LabelValues (?h3 q)))"
        using d2 by auto
      then have "distinct (map Labels (LabelValues (migrate v m lvs ?h3 q)))"
        using Cons.IH[of ?h3] by blast
      then show ?thesis using gd Inr rd None by simp
    qed
  qed
qed

lemma Add_distinct:
  "distinct (map Labels (LabelValues (h q))) \<Longrightarrow>
   distinct (map Labels (LabelValues (snd (snd (Add s m h)) q)))"
  using migrate_distinct[of h q]
  by (simp add: Add_unfold Let_def split: prod.splits)

text \<open>
  With the \<open>RemoveDatum\<close> of section 4.4, which fails on a tuple the Metric does not
  hold, the loop skips every tuple that a newly built \<open>m\<close> lacks: here the store holds
  the counter \<open>foo\<close> with the tuple \<open>a\<close>, and the new \<open>foo\<close> ends without label values.
\<close>

lemma Add_RemoveDatum_not_found:
  "Add foo_store 1 (heap_of [foo_stored, foo_fresh]) =
     (None, foo_store\<lparr>Metrics := [(''foobar.mtail'', 1)]\<rparr>, heap_of [foo_stored, foo_fresh])"
  by (simp add: Add_unfold syncMap_LoadOrStore_def syncMap_Store_def hashMetric_eq byteSeed_def
      foo_store_def foo_stored_def foo_fresh_def len_def DeepEqual_def GetDatum_def
      RemoveDatum_def)






section \<open>Properties of Range\<close>

lemma Range_entries_Nil [simp]: "Range_entries f [] \<sigma> = (None, \<sigma>)"
  by (simp add: Range_entries_def)

lemma Range_entries_Cons [simp]:
  "Range_entries f ((k, p) # es) \<sigma> =
     (case f p \<sigma> of
        (Some err, \<sigma>') \<Rightarrow> (Some err, \<sigma>')
      | (None, \<sigma>') \<Rightarrow> Range_entries f es \<sigma>')"
  by (simp add: Range_entries_def Range_func_def split: prod.splits option.splits)

lemma Range_entries_append:
  "Range_entries f pre \<sigma> = (None, \<sigma>1) \<Longrightarrow>
   Range_entries f (pre @ post) \<sigma> = Range_entries f post \<sigma>1"
proof (induction pre arbitrary: \<sigma>)
  case Nil
  then show ?case by simp
next
  case (Cons e pre)
  obtain k p where e: "e = (k, p)" by (cases e)
  obtain r \<sigma>' where fp: "f p \<sigma> = (r, \<sigma>')" by (cases "f p \<sigma>")
  show ?case
  proof (cases r)
    case None
    with Cons.prems e fp have "Range_entries f pre \<sigma>' = (None, \<sigma>1)" by simp
    then have "Range_entries f (pre @ post) \<sigma>' = Range_entries f post \<sigma>1"
      by (rule Cons.IH)
    with e fp None show ?thesis by simp
  next
    case (Some err)
    with Cons.prems e fp show ?thesis by simp
  qed
qed

lemma traced_apply:
  "traced f m (\<sigma>, cs) = (case f m \<sigma> of (r, \<sigma>') \<Rightarrow> (r, \<sigma>', cs @ [m]))"
  by (simp add: traced_def)

lemma Range_entries_traced:
  "Range_entries f es \<sigma> = (None, \<sigma>1) \<Longrightarrow>
   Range_entries (traced f) es (\<sigma>, cs) = (None, \<sigma>1, cs @ map snd es)"
proof (induction es arbitrary: \<sigma> cs)
  case Nil
  then show ?case by simp
next
  case (Cons e es)
  obtain k p where e: "e = (k, p)" by (cases e)
  obtain r \<sigma>' where fp: "f p \<sigma> = (r, \<sigma>')" by (cases "f p \<sigma>")
  show ?case
  proof (cases r)
    case None
    with Cons.prems e fp have "Range_entries f es \<sigma>' = (None, \<sigma>1)" by simp
    then have "Range_entries (traced f) es (\<sigma>', cs @ [p]) = (None, \<sigma>1, (cs @ [p]) @ map snd es)"
      by (rule Cons.IH)
    with e fp None show ?thesis by (simp add: traced_apply)
  next
    case (Some err)
    with Cons.prems e fp show ?thesis by simp
  qed
qed

lemma Range_entries_all_nil:
  "\<forall>(k, m) \<in> set es. \<forall>\<sigma>'. fst (f m \<sigma>') = None \<Longrightarrow> fst (Range_entries f es \<sigma>) = None"
proof (induction es arbitrary: \<sigma>)
  case Nil
  then show ?case by simp
next
  case (Cons e es)
  obtain k p where e: "e = (k, p)" by (cases e)
  obtain r \<sigma>' where fp: "f p \<sigma> = (r, \<sigma>')" by (cases "f p \<sigma>")
  have "fst (f p \<sigma>) = None" using Cons.prems e by auto
  with fp have r: "r = None" by simp
  have "fst (Range_entries f es \<sigma>') = None" using Cons.IH[of \<sigma>'] Cons.prems by auto
  with e fp r show ?case by simp
qed

lemma Range_entries_first_error:
  assumes "Range_entries f pre \<sigma> = (None, \<sigma>1)"
    and "f m \<sigma>1 = (Some err, \<sigma>2)"
  shows "Range_entries f (pre @ (k, m) # post) \<sigma> = (Some err, \<sigma>2)"
    and "Range_entries (traced f) (pre @ (k, m) # post) (\<sigma>, []) =
           (Some err, \<sigma>2, map snd pre @ [m])"
proof -
  show "Range_entries f (pre @ (k, m) # post) \<sigma> = (Some err, \<sigma>2)"
    using Range_entries_append[OF assms(1), of "(k, m) # post"] assms(2) by simp
  have "Range_entries (traced f) pre (\<sigma>, []) = (None, \<sigma>1, map snd pre)"
    using Range_entries_traced[OF assms(1), of "[]"] by simp
  from Range_entries_append[OF this, of "(k, m) # post"] assms(2)
  show "Range_entries (traced f) (pre @ (k, m) # post) (\<sigma>, []) =
           (Some err, \<sigma>2, map snd pre @ [m])"
    by (simp add: traced_apply)
qed

text \<open>
  C7. \<open>Range\<close> hands the stored Metrics to \<open>f\<close> one at a time. When \<open>f\<close> returned nil
  on the Metrics visited so far (\<open>pre\<close>) and returns an error on the next one, \<open>Range\<close>
  returns that error with the state \<open>f\<close> left, and \<open>f\<close> has been called on the Metrics
  of \<open>pre\<close> and on that one, and on no Metric after it. When \<open>f\<close> returns nil on every
  stored Metric, \<open>Range\<close> returns nil and \<open>f\<close> has been called on all of them.
\<close>

theorem Range_stops_at_first_error:
  "(Metrics s = pre @ (k, m) # post \<longrightarrow> Range_entries f pre \<sigma> = (None, \<sigma>1) \<longrightarrow>
      f m \<sigma>1 = (Some err, \<sigma>2) \<longrightarrow>
        Range s f \<sigma> = (Some err, \<sigma>2) \<and>
        Range s (traced f) (\<sigma>, []) = (Some err, \<sigma>2, map snd pre @ [m]))
   \<and> ((\<forall>(k, m) \<in> set (Metrics s). \<forall>\<sigma>'. fst (f m \<sigma>') = None) \<longrightarrow>
        fst (Range s f \<sigma>) = None \<and>
        snd (snd (Range s (traced f) (\<sigma>, []))) = map snd (Metrics s))"
proof (intro conjI impI)
  assume es: "Metrics s = pre @ (k, m) # post"
    and pre: "Range_entries f pre \<sigma> = (None, \<sigma>1)"
    and fm: "f m \<sigma>1 = (Some err, \<sigma>2)"
  show "Range s f \<sigma> = (Some err, \<sigma>2)"
    using Range_entries_first_error(1)[OF pre fm, of k post] es by (simp add: Range_def)
  show "Range s (traced f) (\<sigma>, []) = (Some err, \<sigma>2, map snd pre @ [m])"
    using Range_entries_first_error(2)[OF pre fm, of k post] es by (simp add: Range_def)
next
  assume nil: "\<forall>(k, m) \<in> set (Metrics s). \<forall>\<sigma>'. fst (f m \<sigma>') = None"
  then show r: "fst (Range s f \<sigma>) = None"
    unfolding Range_def by (rule Range_entries_all_nil)
  then obtain \<sigma>1 where "Range_entries f (Metrics s) \<sigma> = (None, \<sigma>1)"
    unfolding Range_def by (cases "Range_entries f (Metrics s) \<sigma>") simp
  from Range_entries_traced[OF this, of "[]"]
  show "snd (snd (Range s (traced f) (\<sigma>, []))) = map snd (Metrics s)"
    by (simp add: Range_def)
qed


theorem Range_stops_at_first_error_witness:
  "Metrics three_store = [(''hitsweb.mtail'', 0)] @ (''twiceweb.mtail'', 1) # [(''goneweb.mtail'', 2)]
   \<and> Range_entries (fail_on 1) [(''hitsweb.mtail'', 0)] 0 = (None, 1)
   \<and> fail_on 1 1 1 = (Some (Failure ''stop''), 1)
   \<and> Range three_store (fail_on 1) 0 = (Some (Failure ''stop''), 1)
   \<and> Range three_store (traced (fail_on 1)) (0, []) = (Some (Failure ''stop''), 1, [0, 1])
   \<and> fst (Range three_store (fail_on 3) 0) = None
   \<and> snd (snd (Range three_store (traced (fail_on 3)) (0, []))) = [0, 1, 2]"
proof -
  have es: "Metrics three_store =
      [(''hitsweb.mtail'', 0)] @ (''twiceweb.mtail'', 1) # [(''goneweb.mtail'', 2)]"
    by (simp add: three_store_def)
  have pre: "Range_entries (fail_on 1) [(''hitsweb.mtail'', 0::nat)] 0 = (None, 1)"
    by (simp add: fail_on_def)
  have fm: "fail_on 1 1 1 = (Some (Failure ''stop''), 1)"
    by (simp add: fail_on_def)
  have nil: "\<forall>(k, m) \<in> set (Metrics three_store). \<forall>\<sigma>'. fst (fail_on 3 m \<sigma>') = None"
    by (simp add: three_store_def fail_on_def)
  have a: "Range three_store (fail_on 1) 0 = (Some (Failure ''stop''), 1) \<and>
        Range three_store (traced (fail_on 1)) (0, []) = (Some (Failure ''stop''), 1, [0, 1])"
    using Range_stops_at_first_error
      [of three_store "[(''hitsweb.mtail'', 0)]" "''twiceweb.mtail''" 1 "[(''goneweb.mtail'', 2)]"
        "fail_on 1" 0 1 "Failure ''stop''" 1]
      es pre fm by simp
  have b: "fst (Range three_store (fail_on 3) 0) = None \<and>
        snd (snd (Range three_store (traced (fail_on 3)) (0, []))) = [0, 1, 2]"
    using Range_stops_at_first_error [of three_store _ _ _ _ "fail_on 3" 0] nil
    by (simp add: three_store_def)
  show ?thesis using es pre fm a b by blast
qed

section \<open>Properties of Gc\<close>

lemma RemoveDatum_fields:
  "Name (snd (RemoveDatum m ls h) q) = Name (h q) \<and>
   Program (snd (RemoveDatum m ls h) q) = Program (h q) \<and>
   Kind (snd (RemoveDatum m ls h) q) = Kind (h q) \<and>
   Keys (snd (RemoveDatum m ls h) q) = Keys (h q) \<and>
   set (LabelValues (snd (RemoveDatum m ls h) q)) \<subseteq> set (LabelValues (h q))"
  by (auto simp: RemoveDatum_def split: option.splits)

lemma RemoveDatum_other: "q \<noteq> m \<Longrightarrow> snd (RemoveDatum m ls h) q = h q"
  by (simp add: RemoveDatum_def split: option.splits)

lemma Gc_loop_fields:
  "Name (snd (Gc_loop now m lvs h) q) = Name (h q) \<and>
   Program (snd (Gc_loop now m lvs h) q) = Program (h q) \<and>
   Kind (snd (Gc_loop now m lvs h) q) = Kind (h q) \<and>
   Keys (snd (Gc_loop now m lvs h) q) = Keys (h q) \<and>
   set (LabelValues (snd (Gc_loop now m lvs h) q)) \<subseteq> set (LabelValues (h q))"
proof (induction lvs arbitrary: h)
  case Nil
  then show ?case by simp
next
  case (Cons lv lvs)
  obtain r h' where rd: "RemoveDatum m (Labels lv) h = (r, h')"
    by (cases "RemoveDatum m (Labels lv) h")
  have f: "Name (h' q) = Name (h q) \<and> Program (h' q) = Program (h q) \<and>
      Kind (h' q) = Kind (h q) \<and> Keys (h' q) = Keys (h q) \<and>
      set (LabelValues (h' q)) \<subseteq> set (LabelValues (h q))"
    using RemoveDatum_fields[of m "Labels lv" h q] rd by simp
  show ?case
  proof (cases "Expiry lv \<le> 0 \<or> \<not> Sub now (TimeUTC (Value lv)) > Expiry lv")
    case True
    then have "Gc_loop now m (lv # lvs) h = Gc_loop now m lvs h" by auto
    then show ?thesis using Cons.IH[of h] by simp
  next
    case False
    show ?thesis
    proof (cases r)
      case None
      then have "Gc_loop now m (lv # lvs) h = Gc_loop now m lvs h'"
        using False rd by auto
      then show ?thesis using Cons.IH[of h'] f by auto
    next
      case (Some err)
      then have "Gc_loop now m (lv # lvs) h = (Some err, h')"
        using False rd by auto
      then show ?thesis using f by simp
    qed
  qed
qed

lemma Gc_loop_other: "q \<noteq> m \<Longrightarrow> snd (Gc_loop now m lvs h) q = h q"
proof (induction lvs arbitrary: h)
  case Nil
  then show ?case by simp
next
  case (Cons lv lvs)
  then show ?case
    using RemoveDatum_other[of q m "Labels lv" h]
    by (auto split: prod.splits option.splits)
qed

lemma Range_Gc_fields:
  "Name (snd (Range_entries (Gc_func now) es h) q) = Name (h q) \<and>
   Program (snd (Range_entries (Gc_func now) es h) q) = Program (h q) \<and>
   Kind (snd (Range_entries (Gc_func now) es h) q) = Kind (h q) \<and>
   Keys (snd (Range_entries (Gc_func now) es h) q) = Keys (h q) \<and>
   set (LabelValues (snd (Range_entries (Gc_func now) es h) q)) \<subseteq> set (LabelValues (h q))"
proof (induction es arbitrary: h)
  case Nil
  then show ?case by simp
next
  case (Cons e es)
  obtain k p where e: "e = (k, p)" by (cases e)
  obtain r h' where g: "Gc_func now p h = (r, h')" by (cases "Gc_func now p h")
  have f: "Name (h' q) = Name (h q) \<and> Program (h' q) = Program (h q) \<and>
      Kind (h' q) = Kind (h q) \<and> Keys (h' q) = Keys (h q) \<and>
      set (LabelValues (h' q)) \<subseteq> set (LabelValues (h q))"
    using Gc_loop_fields[of now p "LabelValues (h p)" h q] g by (simp add: Gc_func_def)
  show ?case
  proof (cases r)
    case None
    then have "Range_entries (Gc_func now) (e # es) h = Range_entries (Gc_func now) es h'"
      using e g by simp
    then show ?thesis using Cons.IH[of h'] f by auto
  next
    case (Some err)
    then have "Range_entries (Gc_func now) (e # es) h = (Some err, h')"
      using e g by simp
    then show ?thesis using f by simp
  qed
qed

lemma Range_Gc_other:
  "q \<notin> snd ` set es \<Longrightarrow> snd (Range_entries (Gc_func now) es h) q = h q"
proof (induction es arbitrary: h)
  case Nil
  then show ?case by simp
next
  case (Cons e es)
  obtain k p where e: "e = (k, p)" by (cases e)
  obtain r h' where g: "Gc_func now p h = (r, h')" by (cases "Gc_func now p h")
  have "q \<noteq> p" using Cons.prems e by auto
  then have f: "h' q = h q"
    using Gc_loop_other[of q p now "LabelValues (h p)" h] g by (simp add: Gc_func_def)
  have "q \<notin> snd ` set es" using Cons.prems by auto
  then have "snd (Range_entries (Gc_func now) es h') q = h' q" by (rule Cons.IH)
  then show ?case using e g f by (cases r) auto
qed

lemma Gc_eq:
  "Gc now s h =
     (fst (Range_entries (Gc_func now) (Metrics s) h), s,
      snd (Range_entries (Gc_func now) (Metrics s) h))"
  by (simp add: Gc_def Range_def split: prod.splits)

text \<open>
  C4. \<open>Gc\<close> leaves the store as it was, so every key is still present and maps to the
  same pointer, whether the sweep ends with an error or not. The Metric behind a pointer
  keeps its name, program, Kind and Keys; \<open>Gc\<close> only takes label values away, and a
  Metric that lost all of them is still registered.
\<close>

theorem Gc_keeps_every_Metric:
  "fst (snd (Gc now s h)) = s
   \<and> Name (snd (snd (Gc now s h)) q) = Name (h q)
   \<and> Program (snd (snd (Gc now s h)) q) = Program (h q)
   \<and> Kind (snd (snd (Gc now s h)) q) = Kind (h q)
   \<and> Keys (snd (snd (Gc now s h)) q) = Keys (h q)
   \<and> set (LabelValues (snd (snd (Gc now s h)) q)) \<subseteq> set (LabelValues (h q))"
  using Range_Gc_fields[of now "Metrics s" h q]
  by (simp add: Gc_eq)


lemma Gc_web_store:
  "LabelValues (snd (snd (Gc 20 web_store (heap_of [hits, gone]))) (Suc 0)) = []"
  by (simp add: Gc_eq web_store_def Gc_func_def hits_def gone_def RemoveDatum_def TimeUTC_def
      lv_old_def lv_edge_def lv_keep_def)

theorem Gc_keeps_every_Metric_witness:
  "fst (snd (Gc 20 web_store (heap_of [hits, gone]))) = web_store
   \<and> FindMetricOrNil (fst (snd (Gc 20 web_store (heap_of [hits, gone])))) ''gone'' ''web.mtail'' = Some 1
   \<and> Name (snd (snd (Gc 20 web_store (heap_of [hits, gone]))) 1) = ''gone''
   \<and> Program (snd (snd (Gc 20 web_store (heap_of [hits, gone]))) 1) = ''web.mtail''
   \<and> Kind (snd (snd (Gc 20 web_store (heap_of [hits, gone]))) 1) = Gauge
   \<and> Keys (snd (snd (Gc 20 web_store (heap_of [hits, gone]))) 1) = Some [''path'']
   \<and> LabelValues (heap_of [hits, gone] 1) \<noteq> []
   \<and> LabelValues (snd (snd (Gc 20 web_store (heap_of [hits, gone]))) 1) = []"
proof -
  have "FindMetricOrNil web_store ''gone'' ''web.mtail'' = Some 1"
    by (simp add: FindMetricOrNil_def syncMap_Load_def hashMetric_eq web_store_def byteSeed_def)
  moreover have "LabelValues (heap_of [hits, gone] 1) \<noteq> []"
    by (simp add: gone_def)
  ultimately show ?thesis
    using Gc_keeps_every_Metric [of 20 web_store "heap_of [hits, gone]" 1] Gc_web_store
    by (simp add: gone_def)
qed


lemma Gc_loop_distinct:
  assumes "distinct (map Labels rest)"
    and "set rest \<subseteq> set (LabelValues (h m))"
  shows "Gc_loop now m rest h =
     (None, h(m := (h m)\<lparr>LabelValues :=
        filter (\<lambda>x. \<not> (Labels x \<in> Labels ` {lv \<in> set rest. stale now lv})) (LabelValues (h m))\<rparr>))"
  using assms
proof (induction rest arbitrary: h)
  case Nil
  then show ?case by simp
next
  case (Cons lv rest)
  have d: "distinct (map Labels rest)" and nin: "Labels lv \<notin> Labels ` set rest"
    using Cons.prems(1) by auto
  have sub: "set rest \<subseteq> set (LabelValues (h m))" and lvin: "lv \<in> set (LabelValues (h m))"
    using Cons.prems(2) by auto
  show ?case
  proof (cases "stale now lv")
    case False
    then have "Gc_loop now m (lv # rest) h = Gc_loop now m rest h"
      by (auto simp: stale_def)
    moreover have "{x \<in> set (lv # rest). stale now x} = {x \<in> set rest. stale now x}"
      using False by auto
    ultimately show ?thesis using Cons.IH[of h] d sub by simp
  next
    case True
    let ?h' = "h(m := (h m)\<lparr>LabelValues := filter (\<lambda>x. Labels x \<noteq> Labels lv) (LabelValues (h m))\<rparr>)"
    have rd: "RemoveDatum m (Labels lv) h = (None, ?h')"
      using lvin by (intro RemoveDatum_present) auto
    have step: "Gc_loop now m (lv # rest) h = Gc_loop now m rest ?h'"
      using True rd by (auto simp: stale_def)
    have sub': "set rest \<subseteq> set (LabelValues (?h' m))"
      using sub nin by (auto simp: image_iff)
    have st: "{x \<in> set (lv # rest). stale now x} = insert lv {x \<in> set rest. stale now x}"
      using True by auto
    have "Gc_loop now m rest ?h' =
       (None, ?h'(m := (?h' m)\<lparr>LabelValues :=
          filter (\<lambda>x. \<not> (Labels x \<in> Labels ` {lv \<in> set rest. stale now lv})) (LabelValues (?h' m))\<rparr>))"
      using Cons.IH[of ?h'] d sub' by blast
    then show ?thesis
      unfolding step st
      by (auto simp: fun_eq_iff intro!: filter_cong)
  qed
qed

lemma Gc_func_distinct:
  assumes "distinct (map Labels (LabelValues (h m)))"
  shows "Gc_func now m h =
     (None, h(m := (h m)\<lparr>LabelValues := filter (\<lambda>x. \<not> stale now x) (LabelValues (h m))\<rparr>))"
proof -
  have "filter (\<lambda>x. \<not> (Labels x \<in> Labels ` {lv \<in> set (LabelValues (h m)). stale now lv})) (LabelValues (h m))
        = filter (\<lambda>x. \<not> stale now x) (LabelValues (h m))"
    using assms by (intro filter_cong) (auto simp: distinct_map inj_on_def)
  then show ?thesis
    unfolding Gc_func_def
    using Gc_loop_distinct[of "LabelValues (h m)" h m now] assms by simp
qed

lemma Range_Gc_distinct:
  assumes "\<forall>(k, p) \<in> set es. distinct (map Labels (LabelValues (h p)))"
  shows "Range_entries (Gc_func now) es h =
     (None, \<lambda>q. if q \<in> snd ` set es
                 then (h q)\<lparr>LabelValues := filter (\<lambda>x. \<not> stale now x) (LabelValues (h q))\<rparr>
                 else h q)"
  using assms
proof (induction es arbitrary: h)
  case Nil
  then show ?case by simp
next
  case (Cons e es)
  obtain k p where e: "e = (k, p)" by (cases e)
  let ?h1 = "h(p := (h p)\<lparr>LabelValues := filter (\<lambda>x. \<not> stale now x) (LabelValues (h p))\<rparr>)"
  have dp: "distinct (map Labels (LabelValues (h p)))"
    using Cons.prems e by auto
  have wf1: "\<forall>(k, q) \<in> set es. distinct (map Labels (LabelValues (?h1 q)))"
    using Cons.prems by (auto simp: distinct_map_filter)
  have "Range_entries (Gc_func now) es ?h1 =
     (None, \<lambda>q. if q \<in> snd ` set es
                 then (?h1 q)\<lparr>LabelValues := filter (\<lambda>x. \<not> stale now x) (LabelValues (?h1 q))\<rparr>
                 else ?h1 q)"
    using Cons.IH[of ?h1] wf1 by blast
  then show ?case
    unfolding e using Gc_func_distinct[of h p now] dp
    by (auto simp: fun_eq_iff)
qed

text \<open>\<open>Gc\<close> keeps the label tuples of every Metric pairwise different.\<close>

lemma Gc_loop_distinct_kept:
  "distinct (map Labels (LabelValues (h q))) \<Longrightarrow>
   distinct (map Labels (LabelValues (snd (Gc_loop now m lvs h) q)))"
proof (induction lvs arbitrary: h)
  case Nil
  then show ?case by simp
next
  case (Cons lv lvs)
  obtain r h' where rd: "RemoveDatum m (Labels lv) h = (r, h')"
    by (cases "RemoveDatum m (Labels lv) h")
  have d': "distinct (map Labels (LabelValues (h' q)))"
    using RemoveDatum_distinct[of h q m "Labels lv"] Cons.prems rd by simp
  show ?case
    using Cons.IH[of h] Cons.IH[of h'] Cons.prems rd d'
    by (cases r) auto
qed

lemma Gc_distinct:
  fixes s :: "'k Store"
  shows "distinct (map Labels (LabelValues (h q))) \<Longrightarrow>
   distinct (map Labels (LabelValues (snd (snd (Gc now s h)) q)))"
proof -
  have "distinct (map Labels (LabelValues (h q))) \<Longrightarrow>
     distinct (map Labels (LabelValues (snd (Range_entries (Gc_func now) es h) q)))"
    for es :: "('k \<times> ptr) list"
  proof (induction es arbitrary: h)
    case Nil
    then show ?case by simp
  next
    case (Cons e es)
    obtain k p where e: "e = (k, p)" by (cases e)
    obtain r h' where g: "Gc_func now p h = (r, h')" by (cases "Gc_func now p h")
    have d': "distinct (map Labels (LabelValues (h' q)))"
      using Gc_loop_distinct_kept[of h q now p "LabelValues (h p)"] Cons.prems g
      by (simp add: Gc_func_def)
    show ?case using Cons.IH[of h'] e g d' by (cases r) auto
  qed
  then show "distinct (map Labels (LabelValues (h q))) \<Longrightarrow>
   distinct (map Labels (LabelValues (snd (snd (Gc now s h)) q)))"
    by (simp add: Gc_eq)
qed


text \<open>
  C3. In a store whose Metrics have pairwise different label tuples (\<open>GetDatum\<close> keeps
  them so), a run of \<open>Gc\<close> at the time \<open>now\<close> ends without error, and a label value \<open>lv\<close>
  of a stored Metric is gone after the run exactly when its expiry is positive and
  smaller than \<open>now.Sub\<close> of the timestamp of its Datum. So it stays when the two are
  equal, and when the expiry is zero (or negative).
\<close>

theorem Gc_removes_iff_expired:
  assumes "\<forall>(k, p) \<in> set (Metrics s). distinct (map Labels (LabelValues (h p)))"
    and "(k, m) \<in> set (Metrics s)"
    and "lv \<in> set (LabelValues (h m))"
  shows "fst (Gc now s h) = None
       \<and> (lv \<in> set (LabelValues (snd (snd (Gc now s h)) m)) \<longleftrightarrow>
            \<not> (0 < Expiry lv \<and> Expiry lv < Sub now (TimeUTC (Value lv))))"
proof -
  have "m \<in> snd ` set (Metrics s)" using assms(2) by force
  then show ?thesis
    using Range_Gc_distinct[OF assms(1), of now] assms(3)
    by (simp add: Gc_eq stale_def)
qed

theorem Gc_removes_iff_expired_witness:
  "(''hitsweb.mtail'', 0) \<in> set (Metrics web_store)
   \<and> lv_old \<in> set (LabelValues (heap_of [hits, gone] 0))
   \<and> lv_edge \<in> set (LabelValues (heap_of [hits, gone] 0))
   \<and> lv_keep \<in> set (LabelValues (heap_of [hits, gone] 0))
   \<and> fst (Gc 20 web_store (heap_of [hits, gone])) = None
   \<and> 0 < Expiry lv_old \<and> Expiry lv_old < Sub 20 (TimeUTC (Value lv_old))
   \<and> lv_old \<notin> set (LabelValues (snd (snd (Gc 20 web_store (heap_of [hits, gone]))) 0))
   \<and> Expiry lv_edge = Sub 20 (TimeUTC (Value lv_edge))
   \<and> lv_edge \<in> set (LabelValues (snd (snd (Gc 20 web_store (heap_of [hits, gone]))) 0))
   \<and> Expiry lv_keep = 0
   \<and> lv_keep \<in> set (LabelValues (snd (snd (Gc 20 web_store (heap_of [hits, gone]))) 0))"
proof -
  have wf: "\<forall>(k, p) \<in> set (Metrics web_store).
      distinct (map Labels (LabelValues (heap_of [hits, gone] p)))"
    by (simp add: web_store_def hits_def gone_def lv_old_def lv_edge_def lv_keep_def)
  have e: "(''hitsweb.mtail'', 0) \<in> set (Metrics web_store)"
    by (simp add: web_store_def)
  have old: "lv_old \<in> set (LabelValues (heap_of [hits, gone] 0))"
    and edge: "lv_edge \<in> set (LabelValues (heap_of [hits, gone] 0))"
    and keep: "lv_keep \<in> set (LabelValues (heap_of [hits, gone] 0))"
    by (simp_all add: hits_eq)
  have a: "0 < Expiry lv_old \<and> Expiry lv_old < Sub 20 (TimeUTC (Value lv_old))"
    by (simp add: lv_old_def TimeUTC_def)
  have b: "Expiry lv_edge = Sub 20 (TimeUTC (Value lv_edge))"
    by (simp add: lv_edge_def TimeUTC_def)
  have c: "Expiry lv_keep = 0"
    by (simp add: lv_keep_def)
  show ?thesis
    using Gc_removes_iff_expired [OF wf e old, of 20]
      Gc_removes_iff_expired [OF wf e edge, of 20]
      Gc_removes_iff_expired [OF wf e keep, of 20]
      e old edge keep a b c
    by simp
qed

lemma Gc_loop_append:
  "Gc_loop now m seen h = (None, h') \<Longrightarrow> Gc_loop now m (seen @ rest) h = Gc_loop now m rest h'"
proof (induction seen arbitrary: h)
  case Nil
  then show ?case by simp
next
  case (Cons lv seen)
  then show ?case
    by (auto split: if_splits prod.splits option.splits)
qed

text \<open>
  C10. The sweep has passed the Metrics of \<open>pre\<close> without error and is at the Metric
  \<open>m\<close>, where it has passed the label values \<open>seen\<close>; \<open>lv\<close> is the next label value, it
  has expired, and \<open>RemoveDatum\<close> fails for it. Then \<open>Gc\<close> returns that error, with the
  heap as that call left it; the callback has run on the Metrics of \<open>pre\<close> and on \<open>m\<close>
  and on none of \<open>post\<close>; and every Metric that the sweep has not reached is as it was
  before the run, with its expired tuples.
\<close>

theorem Gc_stops_at_failed_RemoveDatum:
  assumes "Metrics s = pre @ (k, m) # post"
    and "Range_entries (Gc_func now) pre h = (None, h1)"
    and "LabelValues (h1 m) = seen @ lv # rest"
    and "Gc_loop now m seen h1 = (None, h2)"
    and "0 < Expiry lv" and "Expiry lv < Sub now (TimeUTC (Value lv))"
    and "RemoveDatum m (Labels lv) h2 = (Some err, h3)"
  shows "Gc now s h = (Some err, s, h3)
       \<and> Range s (traced (Gc_func now)) (h, []) = (Some err, h3, map snd pre @ [m])
       \<and> (\<forall>q. q \<notin> snd ` set pre \<longrightarrow> q \<noteq> m \<longrightarrow> h3 q = h q)"
proof -
  have "Gc_loop now m (seen @ lv # rest) h1 = Gc_loop now m (lv # rest) h2"
    using assms(4) by (rule Gc_loop_append)
  then have fm: "Gc_func now m h1 = (Some err, h3)"
    using assms(3,5,6,7) by (simp add: Gc_func_def)
  have r: "Range s (Gc_func now) h = (Some err, h3) \<and>
      Range s (traced (Gc_func now)) (h, []) = (Some err, h3, map snd pre @ [m])"
    using Range_entries_first_error[OF assms(2) fm, of k post] assms(1)
    by (simp add: Range_def)
  have "h3 q = h q" if "q \<notin> snd ` set pre" and "q \<noteq> m" for q
  proof -
    have "h1 q = h q"
      using Range_Gc_other[OF that(1), of now h] assms(2) by simp
    moreover have "h3 q = h1 q"
      using Gc_loop_other[OF that(2), of now "LabelValues (h1 m)" h1] fm
      by (simp add: Gc_func_def)
    ultimately show ?thesis by simp
  qed
  then show ?thesis using r by (simp add: Gc_def)
qed

theorem Gc_stops_at_failed_RemoveDatum_witness:
  "Metrics three_store =
      [(''hitsweb.mtail'', 0)] @ (''twiceweb.mtail'', 1) # [(''goneweb.mtail'', 2)]
   \<and> Range_entries (Gc_func 20) [(''hitsweb.mtail'', 0)] three_heap = (None, three_heap1)
   \<and> LabelValues (three_heap1 1) = [lv_dup1] @ lv_dup2 # []
   \<and> Gc_loop 20 1 [lv_dup1] three_heap1 = (None, three_heap2)
   \<and> 0 < Expiry lv_dup2 \<and> Expiry lv_dup2 < Sub 20 (TimeUTC (Value lv_dup2))
   \<and> RemoveDatum 1 (Labels lv_dup2) three_heap2 = (Some (NotFound [''/dup'']), three_heap2)
   \<and> Gc 20 three_store three_heap = (Some (NotFound [''/dup'']), three_store, three_heap2)
   \<and> Range three_store (traced (Gc_func 20)) (three_heap, []) =
        (Some (NotFound [''/dup'']), three_heap2, [0, 1])
   \<and> three_heap2 2 = three_heap 2
   \<and> LabelValues (three_heap2 2) =
        [\<lparr>Labels = [''/x''], Value = \<lparr>Val = 1, Time = 0\<rparr>, Expiry = 1\<rparr>]"
proof -
  have es: "Metrics three_store =
      [(''hitsweb.mtail'', 0)] @ (''twiceweb.mtail'', 1) # [(''goneweb.mtail'', 2)]"
    by (simp add: three_store_def)
  have pre: "Range_entries (Gc_func 20) [(''hitsweb.mtail'', 0)] three_heap = (None, three_heap1)"
    by (simp add: Gc_func_def three_heap1_def hits_eq RemoveDatum_def lv_old_def lv_edge_def
        lv_keep_def TimeUTC_def)
  have lvs: "LabelValues (three_heap1 1) = [lv_dup1] @ lv_dup2 # []"
    by (simp add: three_heap1_def twice_eq)
  have seen: "Gc_loop 20 1 [lv_dup1] three_heap1 = (None, three_heap2)"
    by (simp add: three_heap1_def three_heap2_def twice_eq RemoveDatum_def lv_dup1_def
        lv_dup2_def TimeUTC_def twice_def)
  have ex: "0 < Expiry lv_dup2" "Expiry lv_dup2 < Sub 20 (TimeUTC (Value lv_dup2))"
    by (simp_all add: lv_dup2_def TimeUTC_def)
  have rd: "RemoveDatum 1 (Labels lv_dup2) three_heap2 = (Some (NotFound [''/dup'']), three_heap2)"
    by (simp add: three_heap2_def RemoveDatum_def lv_dup2_def)
  have q: "(2::nat) \<notin> snd ` set [(''hitsweb.mtail'', 0::nat)]" "(2::nat) \<noteq> 1"
    by simp_all
  have gone2: "LabelValues (three_heap 2) =
        [\<lparr>Labels = [''/x''], Value = \<lparr>Val = 1, Time = 0\<rparr>, Expiry = 1\<rparr>]"
    by (simp add: numeral_2_eq_2 gone_def)
  show ?thesis
    using Gc_stops_at_failed_RemoveDatum [OF es pre lvs seen ex rd] es pre lvs seen ex rd q gone2
    by simp
qed

section \<open>Properties of the code generator\<close>

text \<open>
  Every row of the table compiles to the bytecode the test expects.
\<close>

lemma programs_compile:
  "list_all (\<lambda>(name, ast, expected). bytecode (Compile name ast) = Some expected) programs"
  by (simp add: programs_def cond_expr_def Compile_def bytecode_def intern_def emit_def)

text \<open>
  C5. For each of the six relational operators, the program
  \<^verbatim>\<open>counter foo\n1 OP 0 {\n  foo++\n}\n\<close> compiles to the two pushes, a \<open>cmp\<close> and a
  branch to the index 6 past the block, where \<open><\<close> gives \<open>cmp -1\<close> and \<open>jnm\<close>, \<open><=\<close> gives
  \<open>cmp 1\<close> and \<open>jm\<close>, \<open>==\<close> gives \<open>cmp 0\<close> and \<open>jnm\<close>, \<open>!=\<close> gives \<open>cmp 0\<close> and \<open>jm\<close>,
  \<open>>=\<close> gives \<open>cmp -1\<close> and \<open>jm\<close>, and \<open>>\<close> gives \<open>cmp 1\<close> and \<open>jnm\<close>.
\<close>

theorem relational_operators_table:
  "bytecode (Compile ''cond expr lt'' (cond_expr Lt)) =
     Some [instr push 1, instr push 0, instr cmp (- 1), instr jnm 6, instr mload 0, instr inc_op 0]
   \<and> bytecode (Compile ''cond expr le'' (cond_expr Le)) =
     Some [instr push 1, instr push 0, instr cmp 1, instr jm 6, instr mload 0, instr inc_op 0]
   \<and> bytecode (Compile ''cond expr eq'' (cond_expr Eq)) =
     Some [instr push 1, instr push 0, instr cmp 0, instr jnm 6, instr mload 0, instr inc_op 0]
   \<and> bytecode (Compile ''cond expr ne'' (cond_expr Ne)) =
     Some [instr push 1, instr push 0, instr cmp 0, instr jm 6, instr mload 0, instr inc_op 0]
   \<and> bytecode (Compile ''cond expr ge'' (cond_expr Ge)) =
     Some [instr push 1, instr push 0, instr cmp (- 1), instr jm 6, instr mload 0, instr inc_op 0]
   \<and> bytecode (Compile ''cond expr gt'' (cond_expr Gt)) =
     Some [instr push 1, instr push 0, instr cmp 1, instr jnm 6, instr mload 0, instr inc_op 0]"
  by (simp add: cond_expr_def Compile_def bytecode_def intern_def emit_def)

lemma compile_cond_prog:
  "compile_cond cnd c = (br, c1) \<Longrightarrow> \<exists>code. prog c1 = prog c @ code"
  by (cases cnd; cases "case cnd of RelCond r a b \<Rightarrow> a"; cases "case cnd of RelCond r a b \<Rightarrow> b")
     (auto simp: emit_def split: prod.splits)

lemma compile_appends:
  "(compile_stmt s c = Inr c' \<longrightarrow> (\<exists>code. prog c' = prog c @ code))"
  "(compile_block ss c = Inr c' \<longrightarrow> (\<exists>code. prog c' = prog c @ code))"
proof (induction s c and ss c arbitrary: c' and c' rule: compile_stmt_compile_block.induct)
  case (1 name c)
  then show ?case by auto
next
  case (2 name c)
  then show ?case by (auto simp: emit_def split: option.splits)
next
  case (3 cnd body c)
  show ?case
  proof
    assume a: "compile_stmt (CondStmt cnd body) c = Inr c'"
    obtain br c1 where cc: "compile_cond cnd c = (br, c1)" by (cases "compile_cond cnd c")
    from a cc obtain c2 where cb: "compile_block body (emit (instr br 0) c1) = Inr c2"
      and c': "c' = c2\<lparr>prog := (prog c2)[length (prog c1) := instr br (int (length (prog c2)))]\<rparr>"
      by (auto split: sum.splits)
    obtain code1 where p1: "prog c1 = prog c @ code1"
      using compile_cond_prog[OF cc] by blast
    obtain code2 where p2: "prog c2 = prog (emit (instr br 0) c1) @ code2"
      using 3[OF cc[symmetric], of c2] cb by blast
    have "prog c' = prog c @ (code1 @ instr br (int (length (prog c2))) # code2)"
      using c' p1 p2 by (simp add: emit_def list_update_append)
    then show "\<exists>code. prog c' = prog c @ code" by blast
  qed
next
  case (4 c)
  then show ?case by auto
next
  case (5 s ss c)
  show ?case
  proof
    assume a: "compile_block (s # ss) c = Inr c'"
    then obtain c1 where cs: "compile_stmt s c = Inr c1" and cb: "compile_block ss c1 = Inr c'"
      by (auto split: sum.splits)
    obtain code1 where "prog c1 = prog c @ code1" using 5(1)[of c1] cs by blast
    moreover obtain code2 where "prog c' = prog c1 @ code2" using 5(2)[OF cs, of c'] cb by blast
    ultimately show "\<exists>code. prog c' = prog c @ code" by simp
  qed
qed


lemma pattern_block_general:
  assumes "compile_stmt (CondStmt (PatternCond p) body) c = Inr c'"
  shows "\<exists>code c2.
           compile_block body
             (emit (instr jnm 0)
                (emit (instr match (int (fst (intern p (re c))))) (c\<lparr>re := snd (intern p (re c))\<rparr>))) =
             Inr c2
           \<and> prog c2 = prog c @ instr match (int (fst (intern p (re c)))) # instr jnm 0 # code
           \<and> prog c' =
               prog c @ instr match (int (fst (intern p (re c)))) #
                 instr jnm (int (length (prog c) + 2 + length code)) # code"
proof -
  obtain i tbl where it: "intern p (re c) = (i, tbl)" by (cases "intern p (re c)")
  let ?c1 = "emit (instr match (int i)) (c\<lparr>re := tbl\<rparr>)"
  from assms it obtain c2 where cb: "compile_block body (emit (instr jnm 0) ?c1) = Inr c2"
    and c': "c' = c2\<lparr>prog := (prog c2)[length (prog ?c1) := instr jnm (int (length (prog c2)))]\<rparr>"
    by (auto split: sum.splits)
  obtain code where p2: "prog c2 = prog (emit (instr jnm 0) ?c1) @ code"
    using compile_appends(2)[of body "emit (instr jnm 0) ?c1" c2] cb by blast
  then have p2': "prog c2 = prog c @ instr match (int i) # instr jnm 0 # code"
    by (simp add: emit_def)
  have "prog c' =
      prog c @ instr match (int i) # instr jnm (int (length (prog c) + 2 + length code)) # code"
    using c' p2' by (simp add: emit_def list_update_append)
  then show ?thesis
    using cb p2' it by auto
qed

lemma compile_declarations:
  "\<exists>tbl. compile_block (map CounterDecl names @ rest) c = compile_block rest (c\<lparr>metrics := tbl\<rparr>)"
proof (induction names arbitrary: c)
  case Nil
  show ?case by (rule exI[of _ "metrics c"]) simp
next
  case (Cons n names)
  obtain tbl where
    "compile_block (map CounterDecl names @ rest) (c\<lparr>metrics := snd (intern n (metrics c))\<rparr>) =
     compile_block rest (c\<lparr>metrics := snd (intern n (metrics c)), metrics := tbl\<rparr>)"
    using Cons.IH[of "c\<lparr>metrics := snd (intern n (metrics c))\<rparr>"] by auto
  then have "compile_block (map CounterDecl (n # names) @ rest) c =
     compile_block rest (c\<lparr>metrics := tbl\<rparr>)"
    by simp
  then show ?case by (rule exI)
qed

text \<open>
  C6. The program \<^verbatim>\<open>counter line_count\n/$/ { line_count++ }\<close> compiles to exactly
  \<open>match 0; jnm 4; mload 0; inc 0\<close>. And a program of counter declarations followed by
  one block with a pattern as condition, whatever the block holds, compiles to
  \<open>match 0\<close>, a \<open>jnm\<close> and the code that the block compiles to behind the two, where
  the operand of the \<open>jnm\<close> is the index just past that code.
\<close>

theorem pattern_block_jnm_target:
  "bytecode (Compile ''simple line counter''
       [CounterDecl ''line_count'', CondStmt (PatternCond ''$'') [IncStmt ''line_count'']]) =
     Some [instr match 0, instr jnm 4, instr mload 0, instr inc_op 0]
   \<and> (Compile name (map CounterDecl names @ [CondStmt (PatternCond p) body]) = Inr v \<longrightarrow>
        (\<exists>tbl code c2.
           compile_block body \<lparr>prog = [instr match 0, instr jnm 0], re = [p], metrics = tbl\<rparr> =
             Inr c2
           \<and> prog c2 = instr match 0 # instr jnm 0 # code
           \<and> prog v = instr match 0 # instr jnm (int (2 + length code)) # code))"
proof (intro conjI impI)
  show "bytecode (Compile ''simple line counter''
       [CounterDecl ''line_count'', CondStmt (PatternCond ''$'') [IncStmt ''line_count'']]) =
     Some [instr match 0, instr jnm 4, instr mload 0, instr inc_op 0]"
    by (simp add: Compile_def bytecode_def intern_def emit_def)
next
  assume a: "Compile name (map CounterDecl names @ [CondStmt (PatternCond p) body]) = Inr v"
  let ?c0 = "\<lparr>prog = [], re = [], metrics = []\<rparr>"
  obtain tbl where d: "compile_block (map CounterDecl names @ [CondStmt (PatternCond p) body]) ?c0 =
      compile_block [CondStmt (PatternCond p) body] (?c0\<lparr>metrics := tbl\<rparr>)"
    using compile_declarations[of names "[CondStmt (PatternCond p) body]" ?c0] by blast
  have "compile_stmt (CondStmt (PatternCond p) body) (?c0\<lparr>metrics := tbl\<rparr>) = Inr v"
    using a d by (simp add: Compile_def split: sum.splits)
  from pattern_block_general[OF this]
  obtain code c2 where
    "compile_block body \<lparr>prog = [instr match 0, instr jnm 0], re = [p], metrics = tbl\<rparr> = Inr c2"
    and "prog c2 = instr match 0 # instr jnm 0 # code"
    and "prog v = instr match 0 # instr jnm (int (2 + length code)) # code"
    by (auto simp: intern_def emit_def)
  then show "\<exists>tbl code c2.
           compile_block body \<lparr>prog = [instr match 0, instr jnm 0], re = [p], metrics = tbl\<rparr> =
             Inr c2
           \<and> prog c2 = instr match 0 # instr jnm 0 # code
           \<and> prog v = instr match 0 # instr jnm (int (2 + length code)) # code"
    by blast
qed

theorem pattern_block_jnm_target_witness:
  "Compile ''nested'' (map CounterDecl [''foo'', ''bar''] @ [CondStmt (PatternCond ''a$'') nested_body]) =
     Inr \<lparr>prog =
            [instr match 0, instr jnm 10, instr mload 1, instr inc_op 0, instr push 1,
             instr push 0, instr cmp 1, instr jm 10, instr mload 0, instr inc_op 0],
          re = [''a$''], metrics = [''foo'', ''bar'']\<rparr>
   \<and> (\<exists>tbl code c2.
        compile_block nested_body
          \<lparr>prog = [instr match 0, instr jnm 0], re = [''a$''], metrics = tbl\<rparr> = Inr c2
        \<and> prog c2 = instr match 0 # instr jnm 0 # code
        \<and> [instr match 0, instr jnm 10, instr mload 1, instr inc_op 0, instr push 1,
           instr push 0, instr cmp 1, instr jm 10, instr mload 0, instr inc_op 0] =
          instr match 0 # instr jnm (int (2 + length code)) # code)"
proof -
  have c: "Compile ''nested''
      (map CounterDecl [''foo'', ''bar''] @ [CondStmt (PatternCond ''a$'') nested_body]) =
     Inr \<lparr>prog =
            [instr match 0, instr jnm 10, instr mload 1, instr inc_op 0, instr push 1,
             instr push 0, instr cmp 1, instr jm 10, instr mload 0, instr inc_op 0],
          re = [''a$''], metrics = [''foo'', ''bar'']\<rparr>"
    by (simp add: Compile_def nested_body_def intern_def emit_def)
  show ?thesis
    using pattern_block_jnm_target
      [of "''nested''" "[''foo'', ''bar'']" "''a$''" nested_body
        "\<lparr>prog =
            [instr match 0, instr jnm 10, instr mload 1, instr inc_op 0, instr push 1,
             instr push 0, instr cmp 1, instr jm 10, instr mload 0, instr inc_op 0],
          re = [''a$''], metrics = [''foo'', ''bar'']\<rparr>"] c
    by simp
qed

end
